theory Spec2Isabelle
  imports Complex_Main "HOL-Library.Multiset"
begin

section \<open>The 1D Burgers' equation solver of \<^verbatim>\<open>steps/04_burgers_equation.ipynb\<close>\<close>

text \<open>
  The notebook builds a uniform grid of \<^verbatim>\<open>nx\<close> points on the interval from 0 to
  \<^verbatim>\<open>2 * np.pi\<close>, fills the field \<^verbatim>\<open>u\<close> from the analytical profile and marches it
  \<^verbatim>\<open>nt\<close> explicit steps forward (cells 5 and 6):
  \<^verbatim>\<open>
  nx = 101
  nt = 100
  dx = 2 * np.pi / (nx - 1)
  nu = 0.07
  dt = dx * nu

  x = np.linspace(0, 2 * np.pi, nx)
  un = np.empty(nx)
  t = 0

  u = np.asarray([ufunc(t, x0, nu) for x0 in x])

  for n in range(nt):

      un = u.copy()
      for i in range(1, nx-1):
          u[i] = un[i] - un[i] * dt / dx *(un[i] - un[i-1]) + nu * dt / dx**2 * (un[i+1] - 2 * un[i] + un[i-1])

      u[0] = un[0] - un[0] * dt / dx * (un[0] - un[-2]) + nu * dt / dx**2 * (un[1] - 2 * un[0] + un[-2])
      u[-1] = u[0]

  u_analytical = np.asarray([ufunc(nt * dt, xi, nu) for xi in x])
  \<close>
  The embedding keeps the constants of cell 5 as parameters. Floating-point numbers are
  modelled by exact reals: rounding, overflow to infinity and NaN are outside the model.
  Python integers are \<^typ>\<open>int\<close>, arrays are lists, and every exception of the script is a
  value of type \<open>error\<close>.
\<close>

subsection \<open>Exceptions\<close>

datatype error = ZeroDivisionError | ValueError | IndexError

definition rbind :: "error + 'a \<Rightarrow> ('a \<Rightarrow> error + 'b) \<Rightarrow> error + 'b" where
  "rbind m f = (case m of Inl e \<Rightarrow> Inl e | Inr v \<Rightarrow> f v)"

subsection \<open>Array indexing\<close>

text \<open>
  A Python index may be negative: it then counts from the end. \<open>pos a i\<close> is the
  position the index \<open>i\<close> denotes in \<open>a\<close>; reading or writing outside the array raises
  \<^verbatim>\<open>IndexError\<close>.
\<close>

definition pos :: "real list \<Rightarrow> int \<Rightarrow> int" where
  "pos a i = (if i < 0 then i + int (length a) else i)"

definition getitem :: "real list \<Rightarrow> int \<Rightarrow> error + real" where
  "getitem a i =
     (if 0 \<le> pos a i \<and> pos a i < int (length a) then Inr (a ! nat (pos a i))
      else Inl IndexError)"

definition setitem :: "real list \<Rightarrow> int \<Rightarrow> real \<Rightarrow> error + real list" where
  "setitem a i v =
     (if 0 \<le> pos a i \<and> pos a i < int (length a) then Inr (a[nat (pos a i) := v])
      else Inl IndexError)"

text \<open>Division of two Python floats raises on a zero divisor.\<close>

definition py_div :: "real \<Rightarrow> real \<Rightarrow> error + real" where
  "py_div a b = (if b = 0 then Inl ZeroDivisionError else Inr (a / b))"

subsection \<open>Parameters and program state\<close>

record params =
  nx :: int
  nt :: int
  dx :: real
  nu :: real
  dt :: real

text \<open>
  The program variables \<^verbatim>\<open>u\<close> and \<^verbatim>\<open>un\<close>, and a ghost counter \<open>iters\<close> of the
  loop bodies of the time loop that have run to their end.
\<close>

record state =
  u :: "real list"
  un :: "real list"
  iters :: nat

subsection \<open>One update expression\<close>

text \<open>
  The right-hand side
  \<^verbatim>\<open>un[c] - un[c] * dt / dx * (un[c] - un[l]) + nu * dt / dx**2 * (un[r] - 2 * un[c] + un[l])\<close>
  with its operands evaluated from left to right. \<^verbatim>\<open>un[c] * dt / dx\<close> is a division of a
  numpy scalar, which does not raise (for \<^verbatim>\<open>dx = 0\<close> numpy gives inf or nan, and the
  value is dropped by the exception that follows); \<^verbatim>\<open>nu * dt / dx**2\<close> divides Python
  floats and raises \<^verbatim>\<open>ZeroDivisionError\<close> when \<^verbatim>\<open>dx**2\<close> is zero.
\<close>

definition update :: "params \<Rightarrow> real list \<Rightarrow> int \<Rightarrow> int \<Rightarrow> int \<Rightarrow> error + real" where
  "update p a c l r =
     rbind (getitem a c) (\<lambda>v1.
     rbind (getitem a c) (\<lambda>v2.
     rbind (getitem a c) (\<lambda>v3.
     rbind (getitem a l) (\<lambda>v4.
     rbind (py_div (nu p * dt p) ((dx p)\<^sup>2)) (\<lambda>k.
     rbind (getitem a r) (\<lambda>v5.
     rbind (getitem a c) (\<lambda>v6.
     rbind (getitem a l) (\<lambda>v7.
       Inr (v1 - v2 * dt p / dx p * (v3 - v4) + k * (v5 - 2 * v6 + v7))))))))))"

subsection \<open>The interior sweep, the boundary update and the time loop\<close>

text \<open>
  \<^verbatim>\<open>for i in ...: u[i] = ...\<close> over a list of indices: every right-hand side reads the
  snapshot \<open>a\<close>, the assignment writes the field \<open>w\<close>. The script sweeps
  \<^verbatim>\<open>range(1, nx-1)\<close>, the list \<open>[1..nx - 2]\<close>.
\<close>

fun sweep :: "params \<Rightarrow> real list \<Rightarrow> int list \<Rightarrow> real list \<Rightarrow> error + real list" where
  "sweep p a [] w = Inr w"
| "sweep p a (i # is) w =
     rbind (update p a i (i - 1) (i + 1)) (\<lambda>v.
     rbind (setitem w i v) (\<lambda>w'. sweep p a is w'))"

text \<open>
  \<^verbatim>\<open>u[0] = un[0] - ... (un[0] - un[-2]) + ... (un[1] - 2 * un[0] + un[-2])\<close>, then
  \<^verbatim>\<open>u[-1] = u[0]\<close>.
\<close>

definition boundary :: "params \<Rightarrow> real list \<Rightarrow> real list \<Rightarrow> error + real list" where
  "boundary p a w =
     rbind (update p a 0 (- 2) 1) (\<lambda>v.
     rbind (setitem w 0 v) (\<lambda>w'.
     rbind (getitem w' 0) (\<lambda>v0.
       setitem w' (- 1) v0)))"

text \<open>
  The body of the time loop after the snapshot \<open>a\<close> has been taken, sweeping the interior
  indices in the order \<open>js\<close> and writing the field \<open>w\<close>.
\<close>

definition advance :: "params \<Rightarrow> real list \<Rightarrow> int list \<Rightarrow> real list \<Rightarrow> error + real list" where
  "advance p a js w = rbind (sweep p a js w) (boundary p a)"

text \<open>
  One iteration of \<^verbatim>\<open>for n in range(nt)\<close>: \<^verbatim>\<open>un = u.copy()\<close> makes the snapshot a
  separate array with the contents of \<^verbatim>\<open>u\<close>, and the updates then write \<^verbatim>\<open>u\<close> in place.
\<close>

definition step :: "params \<Rightarrow> state \<Rightarrow> error + state" where
  "step p s =
     rbind (advance p (u s) [1..nx p - 2] (u s)) (\<lambda>w.
       Inr (s\<lparr>u := w, un := u s, iters := Suc (iters s)\<rparr>))"

fun march :: "params \<Rightarrow> nat \<Rightarrow> state \<Rightarrow> error + state" where
  "march p 0 s = Inr s"
| "march p (Suc k) s = rbind (step p s) (march p k)"

text \<open>\<^verbatim>\<open>range(nt)\<close> has \<open>nat nt\<close> elements: none when \<^verbatim>\<open>nt\<close> is negative.\<close>

definition run :: "params \<Rightarrow> state \<Rightarrow> error + state" where
  "run p s = march p (nat (nt p)) s"

subsection \<open>Setup (cell 5)\<close>

text \<open>
  \<^verbatim>\<open>np.linspace(start, stop, num)\<close> with its default \<^verbatim>\<open>endpoint=True\<close>, after numpy:
  a negative \<^verbatim>\<open>num\<close> raises \<^verbatim>\<open>ValueError\<close>; otherwise the samples are
  \<^verbatim>\<open>arange(0, num) * step + start\<close> with \<^verbatim>\<open>step = (stop - start) / (num - 1)\<close> when
  \<^verbatim>\<open>num - 1 > 0\<close>, and the last sample is set to \<^verbatim>\<open>stop\<close> when \<^verbatim>\<open>num > 1\<close>.
\<close>

definition linspace :: "real \<Rightarrow> real \<Rightarrow> int \<Rightarrow> error + real list" where
  "linspace start stop num =
     (if num < 0 then Inl ValueError
      else
        let dv = num - 1;
            y = map real [0..<nat num];
            delta = stop - start;
            y1 = (if 0 < dv then map (\<lambda>v. v * (delta / real_of_int dv)) y
                  else map (\<lambda>v. v * delta) y);
            y2 = map (\<lambda>v. v + start) y1
        in Inr (if 1 < num then y2[nat num - 1 := stop] else y2))"

text \<open>
  \<^verbatim>\<open>np.empty(n)\<close> returns an array of \<open>n\<close> entries whose contents are whatever the
  memory \<open>mem\<close> held; a negative \<open>n\<close> raises \<^verbatim>\<open>ValueError\<close>.
\<close>

definition np_empty :: "(nat \<Rightarrow> real) \<Rightarrow> int \<Rightarrow> error + real list" where
  "np_empty mem n = (if n < 0 then Inl ValueError else Inr (map mem [0..<nat n]))"

text \<open>
  The analytical profile of cells 2 to 4: \<^verbatim>\<open>phi\<close> as written in cell 2,
  \<^verbatim>\<open>phiprime = phi.diff(x)\<close> as sympy prints it in cell 3, and
  \<^verbatim>\<open>u = -2 * nu * (phiprime / phi) + 4\<close>, compiled by
  \<^verbatim>\<open>lambdify((t, x, nu), u)\<close>.
\<close>

definition phi :: "real \<Rightarrow> real \<Rightarrow> real \<Rightarrow> real" where
  "phi t x nu0 =
     exp (- (x - 4 * t)\<^sup>2 / (4 * nu0 * (t + 1)))
       + exp (- (x - 4 * t - 2 * pi)\<^sup>2 / (4 * nu0 * (t + 1)))"

definition phiprime :: "real \<Rightarrow> real \<Rightarrow> real \<Rightarrow> real" where
  "phiprime t x nu0 =
     - (- 8 * t + 2 * x) * exp (- (- 4 * t + x)\<^sup>2 / (4 * nu0 * (t + 1))) / (4 * nu0 * (t + 1))
       - (- 8 * t + 2 * x - 4 * pi) * exp (- (- 4 * t + x - 2 * pi)\<^sup>2 / (4 * nu0 * (t + 1)))
           / (4 * nu0 * (t + 1))"

definition ufunc :: "real \<Rightarrow> real \<Rightarrow> real \<Rightarrow> real" where
  "ufunc t x nu0 = - 2 * nu0 * (phiprime t x nu0 / phi t x nu0) + 4"

text \<open>
  Cell 5, with \<^verbatim>\<open>nx\<close>, \<^verbatim>\<open>nt\<close> and \<^verbatim>\<open>nu\<close> as arguments. The profile that
  fills the initial field is a parameter \<open>f\<close>; the notebook passes \<open>ufunc\<close>.
  The result is the parameters, the coordinates \<^verbatim>\<open>x\<close> and the initial state.
\<close>

definition set_up ::
  "int \<Rightarrow> int \<Rightarrow> real \<Rightarrow> (real \<Rightarrow> real \<Rightarrow> real \<Rightarrow> real) \<Rightarrow> (nat \<Rightarrow> real)
     \<Rightarrow> error + (params \<times> real list \<times> state)" where
  "set_up nx0 nt0 nu0 f mem =
     rbind (py_div (2 * pi) (real_of_int (nx0 - 1))) (\<lambda>dx0.
     let dt0 = dx0 * nu0 in
     rbind (linspace 0 (2 * pi) nx0) (\<lambda>x.
     rbind (np_empty mem nx0) (\<lambda>un0.
       Inr (\<lparr>nx = nx0, nt = nt0, dx = dx0, nu = nu0, dt = dt0\<rparr>,
            x,
            \<lparr>u = map (\<lambda>x0. f 0 x0 nu0) x, un = un0, iters = 0\<rparr>))))"

text \<open>
  Cells 5 and 6 together: the final field \<^verbatim>\<open>u\<close> and the reference \<^verbatim>\<open>u_analytical\<close>.
\<close>

definition simulate ::
  "int \<Rightarrow> int \<Rightarrow> real \<Rightarrow> (real \<Rightarrow> real \<Rightarrow> real \<Rightarrow> real) \<Rightarrow> (nat \<Rightarrow> real)
     \<Rightarrow> error + (real list \<times> real list)" where
  "simulate nx0 nt0 nu0 f mem =
     rbind (set_up nx0 nt0 nu0 f mem) (\<lambda>(p, x, s).
     rbind (run p s) (\<lambda>s'.
       Inr (u s', map (\<lambda>xi. f (real_of_int (nt p) * dt p) xi (nu p)) x)))"

subsection \<open>Well-formed configurations and the closed form of one step\<close>

text \<open>
  The field has \<^verbatim>\<open>nx\<close> entries, at least two, and the spacing is not zero, as cell 5
  ensures for every \<^verbatim>\<open>nx\<close> from 2 on.
\<close>

definition valid :: "params \<Rightarrow> real list \<Rightarrow> bool" where
  "valid p a \<longleftrightarrow> 2 \<le> nx p \<and> int (length a) = nx p \<and> dx p \<noteq> 0"

text \<open>The update expression on positions of the snapshot, free of exceptions.\<close>

definition rhs :: "params \<Rightarrow> real list \<Rightarrow> nat \<Rightarrow> nat \<Rightarrow> nat \<Rightarrow> real" where
  "rhs p a c l r =
     a ! c - a ! c * dt p / dx p * (a ! c - a ! l)
       + nu p * dt p / (dx p)\<^sup>2 * (a ! r - 2 * a ! c + a ! l)"

text \<open>The field after one step, entry by entry.\<close>

definition next_field :: "params \<Rightarrow> real list \<Rightarrow> real list" where
  "next_field p a =
     map (\<lambda>j. if j = 0 \<or> j = length a - 1 then rhs p a 0 (length a - 2) 1
              else rhs p a j (j - 1) (j + 1))
       [0..<length a]"

text \<open>The field \<open>w\<close> after the sweep over \<open>js\<close>, entry by entry.\<close>

definition swept :: "params \<Rightarrow> real list \<Rightarrow> int list \<Rightarrow> real list \<Rightarrow> real list" where
  "swept p a js w =
     map (\<lambda>j. if int j \<in> set js then rhs p a j (j - 1) (j + 1) else w ! j) [0..<length w]"

text \<open>One iteration of the time loop on a well-formed state, free of exceptions.\<close>

definition pure_step :: "params \<Rightarrow> state \<Rightarrow> state" where
  "pure_step p s = s\<lparr>u := next_field p (u s), un := u s, iters := Suc (iters s)\<rparr>"

subsection \<open>Basic facts\<close>

lemma rbind_Inr [simp]: "rbind (Inr v) f = f v"
  by (simp add: rbind_def)

lemma rbind_Inl [simp]: "rbind (Inl e) f = Inl e"
  by (simp add: rbind_def)

lemma getitem_nonneg:
  "0 \<le> i \<Longrightarrow> i < int (length a) \<Longrightarrow> getitem a i = Inr (a ! nat i)"
  by (simp add: getitem_def pos_def)

lemma getitem_neg:
  "i < 0 \<Longrightarrow> 0 \<le> i + int (length a) \<Longrightarrow> getitem a i = Inr (a ! nat (i + int (length a)))"
  by (simp add: getitem_def pos_def)

lemma setitem_nonneg:
  "0 \<le> i \<Longrightarrow> i < int (length a) \<Longrightarrow> setitem a i v = Inr (a[nat i := v])"
  by (simp add: setitem_def pos_def)

lemma setitem_neg:
  "i < 0 \<Longrightarrow> 0 \<le> i + int (length a) \<Longrightarrow> setitem a i v = Inr (a[nat (i + int (length a)) := v])"
  by (simp add: setitem_def pos_def)

lemma update_interior:
  assumes "dx p \<noteq> 0" "1 \<le> i" "i + 1 < int (length a)"
  shows "update p a i (i - 1) (i + 1) = Inr (rhs p a (nat i) (nat i - 1) (nat i + 1))"
proof -
  have c: "getitem a i = Inr (a ! nat i)"
    using assms by (simp add: getitem_nonneg)
  have l: "getitem a (i - 1) = Inr (a ! (nat i - 1))"
    using assms by (simp add: getitem_nonneg nat_diff_distrib)
  have r: "getitem a (i + 1) = Inr (a ! (nat i + 1))"
    using assms by (simp add: getitem_nonneg nat_add_distrib)
  show ?thesis
    using assms(1) by (simp add: update_def c l r py_div_def rhs_def)
qed

lemma update_boundary:
  assumes "dx p \<noteq> 0" "2 \<le> length a"
  shows "update p a 0 (- 2) 1 = Inr (rhs p a 0 (length a - 2) 1)"
proof -
  have c: "getitem a 0 = Inr (a ! 0)"
    using assms by (auto simp: getitem_def pos_def)
  have "nat (int (length a) - 2) = length a - 2"
    by (simp add: nat_diff_distrib)
  then have l: "getitem a (- 2) = Inr (a ! (length a - 2))"
    using assms by (auto simp: getitem_def pos_def)
  have r: "getitem a 1 = Inr (a ! 1)"
    using assms by (auto simp: getitem_def pos_def)
  show ?thesis
    using assms(1) by (simp add: update_def c l r py_div_def rhs_def)
qed


lemma length_swept [simp]: "length (swept p a js w) = length w"
  by (simp add: swept_def)

lemma swept_nth:
  "j < length w \<Longrightarrow>
     swept p a js w ! j = (if int j \<in> set js then rhs p a j (j - 1) (j + 1) else w ! j)"
  by (simp add: swept_def)

lemma next_field_nth:
  "j < length a \<Longrightarrow>
     next_field p a ! j = (if j = 0 \<or> j = length a - 1 then rhs p a 0 (length a - 2) 1
                           else rhs p a j (j - 1) (j + 1))"
  by (simp add: next_field_def)

lemma swept_Nil: "swept p a [] w = w"
  by (simp add: swept_def map_nth)

lemma swept_Cons:
  assumes "0 \<le> i" "nat i < length w"
  shows "swept p a js (w[nat i := rhs p a (nat i) (nat i - 1) (nat i + 1)]) = swept p a (i # js) w"
proof (rule nth_equalityI)
  show "length (swept p a js (w[nat i := rhs p a (nat i) (nat i - 1) (nat i + 1)]))
          = length (swept p a (i # js) w)"
    by simp
next
  fix j
  assume "j < length (swept p a js (w[nat i := rhs p a (nat i) (nat i - 1) (nat i + 1)]))"
  then have j: "j < length w"
    by simp
  show "swept p a js (w[nat i := rhs p a (nat i) (nat i - 1) (nat i + 1)]) ! j
          = swept p a (i # js) w ! j"
  proof (cases "int j = i")
    case True
    then have "nat i = j"
      by auto
    with j True show ?thesis
      by (simp add: swept_def)
  next
    case False
    then have "nat i \<noteq> j"
      using assms(1) by auto
    with j False show ?thesis
      by (simp add: swept_def)
  qed
qed

lemma sweep_closed:
  assumes "dx p \<noteq> 0" "length w = length a"
    and "\<forall>i\<in>set js. 1 \<le> i \<and> i + 1 < int (length a)"
  shows "sweep p a js w = Inr (swept p a js w)"
  using assms(2,3)
proof (induction js arbitrary: w)
  case Nil
  show ?case
    by (simp add: swept_Nil)
next
  case (Cons i js)
  have i: "1 \<le> i" "i + 1 < int (length a)"
    using Cons.prems(2) by simp_all
  let ?v = "rhs p a (nat i) (nat i - 1) (nat i + 1)"
  have upd: "update p a i (i - 1) (i + 1) = Inr ?v"
    using assms(1) i by (rule update_interior)
  have inb: "0 \<le> i" "i < int (length w)" "nat i < length w"
    using i Cons.prems(1) by simp_all
  have set: "setitem w i ?v = Inr (w[nat i := ?v])"
    using inb by (simp add: setitem_nonneg)
  have "sweep p a (i # js) w = sweep p a js (w[nat i := ?v])"
    by (simp only: sweep.simps upd set rbind_Inr)
  also have "\<dots> = Inr (swept p a js (w[nat i := ?v]))"
    using Cons.prems by (intro Cons.IH) simp_all
  also have "swept p a js (w[nat i := ?v]) = swept p a (i # js) w"
    using inb(1,3) by (rule swept_Cons)
  finally show ?case .
qed

lemma boundary_closed:
  assumes "dx p \<noteq> 0" "2 \<le> length a" "length w = length a"
  shows "boundary p a w
           = Inr (w[0 := rhs p a 0 (length a - 2) 1, length a - 1 := rhs p a 0 (length a - 2) 1])"
proof -
  let ?b = "rhs p a 0 (length a - 2) 1"
  have s0: "setitem w 0 ?b = Inr (w[0 := ?b])"
    using assms by (auto simp: setitem_def pos_def)
  have g0: "getitem (w[0 := ?b]) 0 = Inr ?b"
    using assms by (auto simp: getitem_def pos_def)
  have "nat (int (length a) - 1) = length a - 1"
    by (simp add: nat_diff_distrib)
  then have s1: "setitem (w[0 := ?b]) (- 1) ?b = Inr (w[0 := ?b, length a - 1 := ?b])"
    using assms by (auto simp: setitem_def pos_def)
  show ?thesis
    by (simp only: boundary_def update_boundary [OF assms(1,2)] s0 g0 s1 rbind_Inr)
qed

lemma nth_two_updates:
  "j < length xs \<Longrightarrow> xs[0 := b, m := b] ! j = (if j = 0 \<or> j = m then b else xs ! j)"
  by (cases "j = m") (auto simp: nth_list_update)

lemma advance_closed:
  assumes "valid p a" "length w = length a" "set js = {1..nx p - 2}"
  shows "advance p a js w = Inr (next_field p a)"
proof -
  have n: "2 \<le> length a" "int (length a) = nx p" "dx p \<noteq> 0"
    using assms(1) by (auto simp: valid_def)
  have "\<forall>i\<in>set js. 1 \<le> i \<and> i + 1 < int (length a)"
    using assms(3) n by auto
  then have sw: "sweep p a js w = Inr (swept p a js w)"
    using n(3) assms(2) by (intro sweep_closed) simp_all
  let ?b = "rhs p a 0 (length a - 2) 1"
  have bd: "boundary p a (swept p a js w)
              = Inr ((swept p a js w)[0 := ?b, length a - 1 := ?b])"
    using n assms(2) by (intro boundary_closed) simp_all
  have "(swept p a js w)[0 := ?b, length a - 1 := ?b] = next_field p a"
  proof (rule nth_equalityI)
    show "length ((swept p a js w)[0 := ?b, length a - 1 := ?b]) = length (next_field p a)"
      using assms(2) by (simp add: next_field_def)
  next
    fix j
    assume "j < length ((swept p a js w)[0 := ?b, length a - 1 := ?b])"
    then have j: "j < length a"
      using assms(2) by simp
    have mem: "int j \<in> set js \<longleftrightarrow> j \<noteq> 0 \<and> j \<noteq> length a - 1"
      using assms(3) n j by auto
    have lw: "j < length (swept p a js w)" "0 < length (swept p a js w)"
      using j assms(2) by auto
    show "(swept p a js w)[0 := ?b, length a - 1 := ?b] ! j = next_field p a ! j"
    proof (cases "j = 0 \<or> j = length a - 1")
      case True
      then have "(swept p a js w)[0 := ?b, length a - 1 := ?b] ! j = ?b"
        using lw(1) by (simp only: nth_two_updates if_True)
      with True j show ?thesis
        by (simp only: next_field_nth if_True)
    next
      case False
      then have "(swept p a js w)[0 := ?b, length a - 1 := ?b] ! j = swept p a js w ! j"
        using lw(1) by (simp only: nth_two_updates if_False)
      also have "\<dots> = rhs p a j (j - 1) (j + 1)"
        using False mem j assms(2) by (simp only: swept_nth) simp
      finally show ?thesis
        using False j by (simp only: next_field_nth if_False)
    qed
  qed
  then show ?thesis
    by (simp add: advance_def sw bd)
qed

lemma length_next_field [simp]: "length (next_field p a) = length a"
  by (simp add: next_field_def)

lemma valid_next_field: "valid p a \<Longrightarrow> valid p (next_field p a)"
  by (simp add: valid_def)

lemma step_closed:
  assumes "valid p (u s)"
  shows "step p s = Inr (s\<lparr>u := next_field p (u s), un := u s, iters := Suc (iters s)\<rparr>)"
  using assms by (simp add: step_def advance_closed)


lemma step_pure: "valid p (u s) \<Longrightarrow> step p s = Inr (pure_step p s)"
  by (simp add: step_closed pure_step_def)

lemma valid_pure_step: "valid p (u s) \<Longrightarrow> valid p (u (pure_step p s))"
  by (simp add: pure_step_def valid_next_field)

lemma valid_funpow: "valid p (u s) \<Longrightarrow> valid p (u ((pure_step p ^^ k) s))"
  by (induction k) (simp_all add: valid_pure_step)

lemma iters_funpow: "iters ((pure_step p ^^ k) s) = iters s + k"
  by (induction k) (simp_all add: pure_step_def)

lemma march_pure: "valid p (u s) \<Longrightarrow> march p k s = Inr ((pure_step p ^^ k) s)"
proof (induction k arbitrary: s)
  case 0
  show ?case
    by simp
next
  case (Suc k)
  have "march p (Suc k) s = march p k (pure_step p s)"
    using Suc.prems by (simp add: step_pure)
  also have "\<dots> = Inr ((pure_step p ^^ k) (pure_step p s))"
    using Suc.prems by (intro Suc.IH valid_pure_step)
  finally show ?case
    by (simp add: funpow_swap1)
qed

lemma rbind_assoc: "rbind (rbind m f) g = rbind m (\<lambda>v. rbind (f v) g)"
  by (cases m) simp_all

lemma rbind_return: "rbind m Inr = m"
  by (cases m) simp_all

lemma march_add: "march p (k + m) s = rbind (march p k s) (march p m)"
proof (induction k arbitrary: s)
  case 0
  show ?case
    by simp
next
  case (Suc k)
  show ?case
    by (cases "step p s") (simp_all add: Suc.IH)
qed

lemma march_funpow: "march p k s = ((\<lambda>r. rbind r (step p)) ^^ k) (Inr s)"
proof (induction k)
  case 0
  show ?case
    by simp
next
  case (Suc k)
  have "march p (Suc k) s = march p (k + 1) s"
    by simp
  also have "\<dots> = rbind (march p k s) (march p 1)"
    by (rule march_add)
  also have "march p 1 = step p"
  proof (rule ext)
    fix s'
    show "march p 1 s' = step p s'"
      by (cases "step p s'") simp_all
  qed
  finally show ?case
    by (simp add: Suc.IH)
qed

lemma next_field_periodic:
  assumes "2 \<le> length a"
  shows "next_field p a ! 0 = next_field p a ! (length a - 1)"
proof -
  have l: "0 < length a" "length a - 1 < length a"
    using assms by linarith+
  show ?thesis
    by (simp only: next_field_nth [OF l(1)] next_field_nth [OF l(2)] simp_thms if_True)
qed

lemma step_ignores_un: "step p (s\<lparr>un := g\<rparr>) = rbind (step p s) (\<lambda>s'. Inr s')"
  by (simp add: step_def rbind_return)

lemma gauss_derivative:
  "((\<lambda>x. exp (- (x - m)\<^sup>2 / c)) has_real_derivative
      - (2 * (x - m)) * exp (- (x - m)\<^sup>2 / c) / c) (at x)"
proof (cases "c = 0")
  case True
  then show ?thesis
    by simp
next
  case False
  then show ?thesis
    by (auto intro!: derivative_eq_intros simp: power2_eq_square field_simps)
qed

lemma linspace_closed:
  assumes "0 \<le> num" and "num \<noteq> 1"
  shows "linspace start stop num
           = Inr (map (\<lambda>i. start + real i * ((stop - start) / real_of_int (num - 1))) [0..<nat num])"
proof (cases "num = 0")
  case True
  then show ?thesis
    by (simp add: linspace_def)
next
  case False
  with assms have num: "1 < num"
    by linarith
  let ?h = "(stop - start) / real_of_int (num - 1)"
  let ?y = "map (\<lambda>v. v + start) (map (\<lambda>v. v * ?h) (map real [0..<nat num]))"
  have lin: "linspace start stop num = Inr (?y[nat num - 1 := stop])"
    using num by (simp add: linspace_def Let_def)
  have "?y[nat num - 1 := stop] = map (\<lambda>i. start + real i * ?h) [0..<nat num]"
  proof (rule nth_equalityI)
    show "length (?y[nat num - 1 := stop]) = length (map (\<lambda>i. start + real i * ?h) [0..<nat num])"
      by simp
  next
    fix j
    assume "j < length (?y[nat num - 1 := stop])"
    then have j: "j < nat num"
      by simp
    show "?y[nat num - 1 := stop] ! j = map (\<lambda>i. start + real i * ?h) [0..<nat num] ! j"
    proof (cases "j = nat num - 1")
      case True
      have "real (nat num - 1) = real_of_int (num - 1)"
        using num by (simp add: of_nat_diff)
      moreover have "real_of_int (num - 1) \<noteq> 0"
        using num by simp
      ultimately have "start + real (nat num - 1) * ?h = stop"
        by simp
      with True j show ?thesis
        by simp
    next
      case False
      with j show ?thesis
        by (simp add: add.commute)
    qed
  qed
  with lin show ?thesis
    by simp
qed

lemma march_ignores_un:
  "map_sum id u (march p k (s\<lparr>un := g\<rparr>)) = map_sum id u (march p k s)"
proof (cases k)
  case 0
  then show ?thesis
    by simp
next
  case (Suc k')
  then show ?thesis
    by (simp add: step_ignores_un rbind_return)
qed

lemma run_output_ignores_un:
  "rbind (run p (s\<lparr>un := g\<rparr>)) (\<lambda>s'. Inr (u s', c)) = rbind (run p s) (\<lambda>s'. Inr (u s', c))"
proof -
  have "map_sum id u (run p (s\<lparr>un := g\<rparr>)) = map_sum id u (run p s)"
    by (simp only: run_def march_ignores_un)
  then show ?thesis
    by (cases "run p (s\<lparr>un := g\<rparr>)"; cases "run p s") simp_all
qed

lemma phiprime_derivative:
  "((\<lambda>x. phi t x nu0) has_real_derivative phiprime t x nu0) (at x)"
proof -
  let ?c = "4 * nu0 * (t + 1)"
  let ?d = "- (2 * (x - 4 * t)) * exp (- (x - 4 * t)\<^sup>2 / ?c) / ?c
            + - (2 * (x - (4 * t + 2 * pi))) * exp (- (x - (4 * t + 2 * pi))\<^sup>2 / ?c) / ?c"
  have D: "((\<lambda>x. exp (- (x - 4 * t)\<^sup>2 / ?c) + exp (- (x - (4 * t + 2 * pi))\<^sup>2 / ?c))
          has_real_derivative ?d) (at x)"
    by (intro DERIV_add gauss_derivative)
  have f: "(\<lambda>x. phi t x nu0)
             = (\<lambda>x. exp (- (x - 4 * t)\<^sup>2 / ?c) + exp (- (x - (4 * t + 2 * pi))\<^sup>2 / ?c))"
    by (rule ext) (simp add: phi_def diff_diff_eq)
  have gen: "p - q * e / c = p + - q * e / c" for p q e c :: real
    by simp
  have "- 4 * t + x = x - 4 * t" "- 4 * t + x - 2 * pi = x - (4 * t + 2 * pi)"
    "- 8 * t + 2 * x = 2 * (x - 4 * t)" "- 8 * t + 2 * x - 4 * pi = 2 * (x - (4 * t + 2 * pi))"
    by simp_all
  then have "phiprime t x nu0
      = - (2 * (x - 4 * t)) * exp (- (x - 4 * t)\<^sup>2 / ?c) / ?c
        - 2 * (x - (4 * t + 2 * pi)) * exp (- (x - (4 * t + 2 * pi))\<^sup>2 / ?c) / ?c"
    unfolding phiprime_def by (simp only:)
  also have "\<dots> = ?d"
    by (rule gen)
  finally show ?thesis
    using D by (simp only: f)
qed

lemma set_up_closed:
  "set_up nx0 nt0 nu0 f mem =
     (if nx0 = 1 then Inl ZeroDivisionError
      else if nx0 < 0 then Inl ValueError
      else Inr (\<lparr>nx = nx0, nt = nt0, dx = 2 * pi / real_of_int (nx0 - 1), nu = nu0,
                  dt = 2 * pi / real_of_int (nx0 - 1) * nu0\<rparr>,
                map (\<lambda>i. real i * (2 * pi / real_of_int (nx0 - 1))) [0..<nat nx0],
                \<lparr>u = map (\<lambda>x0. f 0 x0 nu0)
                       (map (\<lambda>i. real i * (2 * pi / real_of_int (nx0 - 1))) [0..<nat nx0]),
                  un = map mem [0..<nat nx0], iters = 0\<rparr>))"
proof (cases "nx0 = 1")
  case True
  then show ?thesis
    by (simp add: set_up_def py_div_def)
next
  case one: False
  show ?thesis
  proof (cases "nx0 < 0")
    case True
    then show ?thesis
      by (simp add: set_up_def py_div_def linspace_def)
  next
    case False
    then have "linspace 0 (2 * pi) nx0
        = Inr (map (\<lambda>i. real i * (2 * pi / real_of_int (nx0 - 1))) [0..<nat nx0])"
      using one linspace_closed [of nx0 0 "2 * pi"] by simp
    then show ?thesis
      using one False by (simp add: set_up_def py_div_def np_empty_def)
  qed
qed

subsection \<open>The explicit update at interior points\<close>

text \<open>
  Claim C1. In every time step taken from a well-formed field, every interior index
  \<open>i\<close> with \<open>1 \<le> i \<le> nx - 2\<close> of the new field holds the explicit Burgers' update
  of the snapshot \<^verbatim>\<open>un\<close>, which is the field before the step:
  \<open>un[i] - un[i] * (dt / dx) * (un[i] - un[i-1]) + nu * (dt / dx\<^sup>2) * (un[i+1] - 2 * un[i] + un[i-1])\<close>.
\<close>

theorem interior_update:
  assumes "valid p (u s)" and "1 \<le> i" and "i \<le> nx p - 2"
  shows "\<exists>s'. step p s = Inr s' \<and> un s' = u s \<and>
           getitem (u s') i =
             Inr (un s' ! nat i
                  - un s' ! nat i * (dt p / dx p) * (un s' ! nat i - un s' ! nat (i - 1))
                  + nu p * (dt p / (dx p)\<^sup>2)
                      * (un s' ! nat (i + 1) - 2 * un s' ! nat i + un s' ! nat (i - 1)))"
proof -
  let ?a = "u s"
  have n: "int (length ?a) = nx p"
    using assms(1) by (simp add: valid_def)
  have j: "nat i < length ?a" "nat i \<noteq> 0" "nat i \<noteq> length ?a - 1"
    using assms(2,3) n by linarith+
  have ix: "nat (i - 1) = nat i - 1" "nat (i + 1) = nat i + 1"
    using assms(2) by linarith+
  have "getitem (next_field p ?a) i = Inr (next_field p ?a ! nat i)"
    using assms(2,3) n by (intro getitem_nonneg) simp_all
  also have "next_field p ?a ! nat i = rhs p ?a (nat i) (nat i - 1) (nat i + 1)"
    using j by (simp only: next_field_nth simp_thms if_False)
  finally have "getitem (next_field p ?a) i =
      Inr (?a ! nat i - ?a ! nat i * (dt p / dx p) * (?a ! nat i - ?a ! nat (i - 1))
           + nu p * (dt p / (dx p)\<^sup>2)
               * (?a ! nat (i + 1) - 2 * ?a ! nat i + ?a ! nat (i - 1)))"
    by (simp only: ix rhs_def times_divide_eq_right)
  then show ?thesis
    using assms(1) by (simp add: step_closed)
qed

theorem interior_update_witness:
  "valid \<lparr>nx = 4, nt = 2, dx = 2, nu = 1, dt = 1\<rparr> (u \<lparr>u = [1, 2, 4, 1], un = [], iters = 0\<rparr>)
   \<and> (1::int) \<le> 2 \<and> (2::int) \<le> nx \<lparr>nx = 4, nt = 2, dx = 2, nu = 1, dt = 1\<rparr> - 2
   \<and> step \<lparr>nx = 4, nt = 2, dx = 2, nu = 1, dt = 1\<rparr> \<lparr>u = [1, 2, 4, 1], un = [], iters = 0\<rparr>
       = Inr \<lparr>u = [7 / 2, 5 / 4, - (5 / 4), 7 / 2], un = [1, 2, 4, 1], iters = 1\<rparr>
   \<and> getitem [7 / 2, 5 / 4, - (5 / 4), 7 / 2] 2
       = Inr (4 - 4 * (1 / 2) * (4 - 2) + 1 * (1 / 2\<^sup>2) * (1 - 2 * 4 + 2))"
  using interior_update [of "\<lparr>nx = 4, nt = 2, dx = 2, nu = 1, dt = 1\<rparr>"
      "\<lparr>u = [1, 2, 4, 1], un = [], iters = 0\<rparr>" 2]
  by (simp add: valid_def step_def advance_def boundary_def update_def getitem_def setitem_def
      pos_def py_div_def upto.simps)

subsection \<open>The periodic boundary\<close>

text \<open>
  Claim C2. In every time step taken from a well-formed field, index 0 of the new field is
  computed from the snapshot with the snapshot's entry \<open>nx - 2\<close> as the left neighbour:
  \<open>un[0] - un[0] * (dt / dx) * (un[0] - un[nx-2]) + nu * (dt / dx\<^sup>2) * (un[1] - 2 * un[0] + un[nx-2])\<close>,
  and the last index \<open>nx - 1\<close> of the new field holds the same value as its index 0.
\<close>

theorem periodic_boundary_update:
  assumes "valid p (u s)"
  shows "\<exists>s'. step p s = Inr s' \<and> un s' = u s \<and>
           getitem (u s') 0 =
             Inr (un s' ! 0
                  - un s' ! 0 * (dt p / dx p) * (un s' ! 0 - un s' ! nat (nx p - 2))
                  + nu p * (dt p / (dx p)\<^sup>2)
                      * (un s' ! 1 - 2 * un s' ! 0 + un s' ! nat (nx p - 2))) \<and>
           getitem (u s') (nx p - 1) = getitem (u s') 0"
proof -
  let ?a = "u s"
  have n: "int (length ?a) = nx p" "2 \<le> length ?a"
    using assms by (simp_all add: valid_def)
  have l: "0 < length ?a" "length ?a - 1 < length ?a"
    using n(2) by linarith+
  have ix: "nat (nx p - 2) = length ?a - 2" "nat (nx p - 1) = length ?a - 1"
    using n by linarith+
  have "getitem (next_field p ?a) 0 = Inr (next_field p ?a ! 0)"
    using l(1) by (simp add: getitem_def pos_def)
  also have "next_field p ?a ! 0 = rhs p ?a 0 (length ?a - 2) 1"
    by (simp only: next_field_nth [OF l(1)] simp_thms if_True)
  finally have first: "getitem (next_field p ?a) 0 =
      Inr (?a ! 0 - ?a ! 0 * (dt p / dx p) * (?a ! 0 - ?a ! nat (nx p - 2))
           + nu p * (dt p / (dx p)\<^sup>2) * (?a ! 1 - 2 * ?a ! 0 + ?a ! nat (nx p - 2)))"
    by (simp only: ix rhs_def times_divide_eq_right)
  have "getitem (next_field p ?a) (nx p - 1) = Inr (next_field p ?a ! nat (nx p - 1))"
    using n by (intro getitem_nonneg) simp_all
  also have "next_field p ?a ! nat (nx p - 1) = next_field p ?a ! 0"
    by (simp only: ix next_field_periodic [OF n(2)])
  also have "Inr (next_field p ?a ! 0) = getitem (next_field p ?a) 0"
    using l(1) by (simp add: getitem_def pos_def)
  finally have last: "getitem (next_field p ?a) (nx p - 1) = getitem (next_field p ?a) 0" .
  show ?thesis
    using assms first last by (simp add: step_closed)
qed

theorem periodic_boundary_update_witness:
  "valid \<lparr>nx = 4, nt = 2, dx = 2, nu = 1, dt = 1\<rparr> (u \<lparr>u = [1, 2, 4, 1], un = [], iters = 0\<rparr>)
   \<and> step \<lparr>nx = 4, nt = 2, dx = 2, nu = 1, dt = 1\<rparr> \<lparr>u = [1, 2, 4, 1], un = [], iters = 0\<rparr>
       = Inr \<lparr>u = [7 / 2, 5 / 4, - (5 / 4), 7 / 2], un = [1, 2, 4, 1], iters = 1\<rparr>
   \<and> getitem [7 / 2, 5 / 4, - (5 / 4), 7 / 2] 0
       = Inr (1 - 1 * (1 / 2) * (1 - 4) + 1 * (1 / 2\<^sup>2) * (2 - 2 * 1 + 4))
   \<and> getitem [7 / 2, 5 / 4, - (5 / 4), 7 / 2] (nx \<lparr>nx = 4, nt = 2, dx = 2, nu = 1, dt = 1\<rparr> - 1)
       = getitem [7 / 2, 5 / 4, - (5 / 4), 7 / 2] 0"
  using periodic_boundary_update [of "\<lparr>nx = 4, nt = 2, dx = 2, nu = 1, dt = 1\<rparr>"
      "\<lparr>u = [1, 2, 4, 1], un = [], iters = 0\<rparr>"]
  by (simp add: valid_def step_def advance_def boundary_def update_def getitem_def setitem_def
      pos_def py_div_def upto.simps)

text \<open>
  Claim C3. From every well-formed initial field, the field after each of the first
  \<open>k\<close> steps of a run (\<open>1 \<le> k \<le> nt\<close>) exists and has its first entry equal
  to its last entry; the run continues from that intermediate state.
\<close>

theorem periodic_after_every_step:
  assumes "valid p (u s)" and "1 \<le> k" and "int k \<le> nt p"
  shows "\<exists>s'. march p k s = Inr s' \<and> run p s = march p (nat (nt p) - k) s' \<and>
           (\<exists>v. getitem (u s') 0 = Inr v \<and> getitem (u s') (- 1) = Inr v)"
proof -
  obtain k' where k: "k = Suc k'"
    using assms(2) by (cases k) simp_all
  let ?r = "(pure_step p ^^ k') s"
  let ?s' = "(pure_step p ^^ k) s"
  have mk: "march p k s = Inr ?s'"
    using assms(1) by (rule march_pure)
  have "nat (nt p) = k + (nat (nt p) - k)"
    using assms(3) by linarith
  then have "run p s = march p (k + (nat (nt p) - k)) s"
    by (simp only: run_def)
  then have rn: "run p s = march p (nat (nt p) - k) ?s'"
    by (simp only: march_add mk rbind_Inr)
  have vr: "valid p (u ?r)"
    using assms(1) by (rule valid_funpow)
  then have len: "2 \<le> length (u ?r)"
    by (simp add: valid_def)
  have us: "u ?s' = next_field p (u ?r)"
    by (simp add: k pure_step_def)
  have l: "0 < length (u ?r)" "length (u ?r) - 1 < length (u ?r)"
    using len by linarith+
  have g0: "getitem (u ?s') 0 = Inr (next_field p (u ?r) ! 0)"
    using l(1) by (simp add: us getitem_def pos_def)
  have "nat (int (length (u ?r)) - 1) = length (u ?r) - 1"
    by linarith
  then have "getitem (u ?s') (- 1) = Inr (next_field p (u ?r) ! (length (u ?r) - 1))"
    using l by (simp add: us getitem_def pos_def)
  then have g1: "getitem (u ?s') (- 1) = Inr (next_field p (u ?r) ! 0)"
    by (simp only: next_field_periodic [OF len])
  show ?thesis
    using mk rn g0 g1 by blast
qed

theorem periodic_after_every_step_witness:
  "valid \<lparr>nx = 4, nt = 2, dx = 2, nu = 1, dt = 1\<rparr> (u \<lparr>u = [1, 2, 4, 1], un = [], iters = 0\<rparr>)
   \<and> (1::nat) \<le> 2 \<and> int 2 \<le> nt \<lparr>nx = 4, nt = 2, dx = 2, nu = 1, dt = 1\<rparr>
   \<and> march \<lparr>nx = 4, nt = 2, dx = 2, nu = 1, dt = 1\<rparr> 2 \<lparr>u = [1, 2, 4, 1], un = [], iters = 0\<rparr>
       = Inr \<lparr>u = [- (105 / 16), 83 / 32, - 1, - (105 / 16)], un = [7 / 2, 5 / 4, - (5 / 4), 7 / 2], iters = 2\<rparr>
   \<and> getitem [- (105 / 16), 83 / 32, - 1, - (105 / 16)] 0 = Inr (- (105 / 16))
   \<and> getitem [- (105 / 16), 83 / 32, - 1, - (105 / 16)] (- 1) = Inr (- (105 / 16))"
  using periodic_after_every_step [of "\<lparr>nx = 4, nt = 2, dx = 2, nu = 1, dt = 1\<rparr>"
      "\<lparr>u = [1, 2, 4, 1], un = [], iters = 0\<rparr>" 2]
  by (simp add: valid_def step_def advance_def boundary_def update_def getitem_def setitem_def
      pos_def py_div_def upto.simps eval_nat_numeral)

subsection \<open>Reads of the snapshot only\<close>

text \<open>
  Claim C4. The new field of a time step is a function of the snapshot alone: sweeping the
  interior indices in any order \<open>js\<close> and writing into a field \<open>w\<close> of any contents
  (of the right length), with every stencil read and the wraparound read taken from the
  snapshot, gives the field that the step of the script gives.
\<close>

theorem step_reads_snapshot_only:
  assumes "valid p (u s)" and "length w = length (u s)" and "mset js = mset [1..nx p - 2]"
  shows "\<exists>s'. step p s = Inr s' \<and> un s' = u s \<and> advance p (un s') js w = Inr (u s')"
proof -
  have "set js = set [1..nx p - 2]"
    using assms(3) by (rule mset_eq_setD)
  then have "set js = {1..nx p - 2}"
    by simp
  with assms(1,2) have "advance p (u s) js w = Inr (next_field p (u s))"
    by (rule advance_closed)
  then show ?thesis
    using assms(1) by (simp add: step_closed)
qed

theorem step_reads_snapshot_only_witness:
  "valid \<lparr>nx = 4, nt = 2, dx = 2, nu = 1, dt = 1\<rparr> (u \<lparr>u = [1, 2, 4, 1], un = [], iters = 0\<rparr>)
   \<and> length [0, 0, 0, 0 :: real] = length (u \<lparr>u = [1, 2, 4, 1], un = [], iters = 0\<rparr>)
   \<and> mset [2, 1] = mset [1..nx \<lparr>nx = 4, nt = 2, dx = 2, nu = 1, dt = 1\<rparr> - 2]
   \<and> step \<lparr>nx = 4, nt = 2, dx = 2, nu = 1, dt = 1\<rparr> \<lparr>u = [1, 2, 4, 1], un = [], iters = 0\<rparr>
       = Inr \<lparr>u = [7 / 2, 5 / 4, - (5 / 4), 7 / 2], un = [1, 2, 4, 1], iters = 1\<rparr>
   \<and> advance \<lparr>nx = 4, nt = 2, dx = 2, nu = 1, dt = 1\<rparr> [1, 2, 4, 1] [2, 1] [0, 0, 0, 0]
       = Inr [7 / 2, 5 / 4, - (5 / 4), 7 / 2]"
  using step_reads_snapshot_only [of "\<lparr>nx = 4, nt = 2, dx = 2, nu = 1, dt = 1\<rparr>"
      "\<lparr>u = [1, 2, 4, 1], un = [], iters = 0\<rparr>" "[0, 0, 0, 0]" "[2, 1]"]
  by (simp add: valid_def step_def advance_def boundary_def update_def getitem_def setitem_def
      pos_def py_div_def upto.simps)

subsection \<open>The time loop\<close>

text \<open>
  Claim C5. From every well-formed field the time loop returns, after exactly \<open>nt\<close>
  complete iterations (none when \<open>nt\<close> is negative): the ghost counter has advanced by
  \<open>nat nt\<close>, and the final state is the \<open>nt\<close>-fold composition of the whole loop body.
\<close>

theorem time_loop_runs_nt_iterations:
  assumes "valid p (u s)"
  shows "\<exists>s'. run p s = Inr s' \<and> iters s' = iters s + nat (nt p) \<and>
           ((\<lambda>r. rbind r (step p)) ^^ nat (nt p)) (Inr s) = Inr s'"
proof -
  let ?s' = "(pure_step p ^^ nat (nt p)) s"
  have r: "run p s = Inr ?s'"
    using assms by (simp add: run_def march_pure)
  have "((\<lambda>r. rbind r (step p)) ^^ nat (nt p)) (Inr s) = march p (nat (nt p)) s"
    by (simp only: march_funpow)
  then have "((\<lambda>r. rbind r (step p)) ^^ nat (nt p)) (Inr s) = Inr ?s'"
    using r by (simp only: run_def)
  then show ?thesis
    using r by (simp add: iters_funpow)
qed

theorem time_loop_runs_nt_iterations_witness:
  "valid \<lparr>nx = 4, nt = 2, dx = 2, nu = 1, dt = 1\<rparr> (u \<lparr>u = [1, 2, 4, 1], un = [], iters = 0\<rparr>)
   \<and> run \<lparr>nx = 4, nt = 2, dx = 2, nu = 1, dt = 1\<rparr> \<lparr>u = [1, 2, 4, 1], un = [], iters = 0\<rparr>
       = Inr \<lparr>u = [- (105 / 16), 83 / 32, - 1, - (105 / 16)], un = [7 / 2, 5 / 4, - (5 / 4), 7 / 2], iters = 2\<rparr>
   \<and> iters \<lparr>u = [- (105 / 16), 83 / 32, - 1, - (105 / 16)], un = [7 / 2, 5 / 4, - (5 / 4), 7 / 2], iters = 2\<rparr>
       = iters \<lparr>u = [1, 2, 4, 1], un = [], iters = 0\<rparr> + nat (nt \<lparr>nx = 4, nt = 2, dx = 2, nu = 1, dt = 1\<rparr>)
   \<and> ((\<lambda>r. rbind r (step \<lparr>nx = 4, nt = 2, dx = 2, nu = 1, dt = 1\<rparr>)) ^^ nat (nt \<lparr>nx = 4, nt = 2, dx = 2, nu = 1, dt = 1\<rparr>))
         (Inr \<lparr>u = [1, 2, 4, 1], un = [], iters = 0\<rparr>)
       = Inr \<lparr>u = [- (105 / 16), 83 / 32, - 1, - (105 / 16)], un = [7 / 2, 5 / 4, - (5 / 4), 7 / 2], iters = 2\<rparr>"
  using time_loop_runs_nt_iterations [of "\<lparr>nx = 4, nt = 2, dx = 2, nu = 1, dt = 1\<rparr>"
      "\<lparr>u = [1, 2, 4, 1], un = [], iters = 0\<rparr>"]
  by (simp add: run_def valid_def step_def advance_def boundary_def update_def getitem_def setitem_def
      pos_def py_div_def upto.simps eval_nat_numeral)

text \<open>
  Claim C6. With a step count of zero the time loop returns the state it was given: the
  field is unchanged.
\<close>

theorem zero_steps_identity: "run (p\<lparr>nt := 0\<rparr>) s = Inr s"
  by (simp add: run_def)

text \<open>
  Claim C7. The output is a function of the parameters and the initial field. The only
  other state of the script is the array \<^verbatim>\<open>un\<close>, which \<^verbatim>\<open>np.empty\<close> leaves
  uninitialised: two runs of cells 5 and 6 on different memory contents give the same
  output, and two runs of the time loop from states that differ in \<^verbatim>\<open>un\<close> only give the
  same final field, or raise the same exception.
\<close>

theorem output_deterministic:
  "simulate nx0 nt0 nu0 f mem1 = simulate nx0 nt0 nu0 f mem2 \<and>
   map_sum id u (run p (s\<lparr>un := g1\<rparr>)) = map_sum id u (run p (s\<lparr>un := g2\<rparr>))"
proof
  let ?x = "map (\<lambda>i. real i * (2 * pi / real_of_int (nx0 - 1))) [0..<nat nx0]"
  let ?p = "\<lparr>nx = nx0, nt = nt0, dx = 2 * pi / real_of_int (nx0 - 1), nu = nu0,
             dt = 2 * pi / real_of_int (nx0 - 1) * nu0\<rparr>"
  let ?s = "\<lparr>u = map (\<lambda>x0. f 0 x0 nu0) ?x, un = [], iters = 0\<rparr>"
  have "simulate nx0 nt0 nu0 f mem =
      (if nx0 = 1 then Inl ZeroDivisionError
       else if nx0 < 0 then Inl ValueError
       else rbind (run ?p ?s)
              (\<lambda>s'. Inr (u s', map (\<lambda>xi. f (real_of_int nt0 * dt ?p) xi nu0) ?x)))" for mem
  proof (cases "nx0 = 1 \<or> nx0 < 0")
    case True
    then show ?thesis
      by (auto simp add: simulate_def set_up_closed)
  next
    case False
    then have "set_up nx0 nt0 nu0 f mem = Inr (?p, ?x, ?s\<lparr>un := map mem [0..<nat nx0]\<rparr>)"
      by (simp add: set_up_closed)
    then have "simulate nx0 nt0 nu0 f mem =
        rbind (run ?p (?s\<lparr>un := map mem [0..<nat nx0]\<rparr>))
          (\<lambda>s'. Inr (u s', map (\<lambda>xi. f (real_of_int (nt ?p) * dt ?p) xi (nu ?p)) ?x))"
      by (simp only: simulate_def rbind_Inr prod.case)
    also have "\<dots> = rbind (run ?p ?s)
          (\<lambda>s'. Inr (u s', map (\<lambda>xi. f (real_of_int (nt ?p) * dt ?p) xi (nu ?p)) ?x))"
      by (rule run_output_ignores_un)
    finally show ?thesis
      using False by simp
  qed
  then show "simulate nx0 nt0 nu0 f mem1 = simulate nx0 nt0 nu0 f mem2"
    by simp
next
  show "map_sum id u (run p (s\<lparr>un := g1\<rparr>)) = map_sum id u (run p (s\<lparr>un := g2\<rparr>))"
    by (simp only: run_def march_ignores_un)
qed

subsection \<open>Setup\<close>

text \<open>
  Claim C8, as the script behaves. Setup has no check of its own. For one grid point it
  raises \<^verbatim>\<open>ZeroDivisionError\<close> when it computes the spacing, for a negative number of
  points \<^verbatim>\<open>ValueError\<close> when it builds the coordinates; for every other number of
  points, zero included, it returns the spacing \<open>2 * pi / (nx - 1)\<close>, the \<open>nx\<close>
  coordinates \<open>i * dx\<close> and the initial state.
\<close>

theorem set_up_failure_modes:
  "set_up nx0 nt0 nu0 f mem =
     (if nx0 = 1 then Inl ZeroDivisionError
      else if nx0 < 0 then Inl ValueError
      else Inr (\<lparr>nx = nx0, nt = nt0, dx = 2 * pi / real_of_int (nx0 - 1), nu = nu0,
                  dt = 2 * pi / real_of_int (nx0 - 1) * nu0\<rparr>,
                map (\<lambda>i. real i * (2 * pi / real_of_int (nx0 - 1))) [0..<nat nx0],
                \<lparr>u = map (\<lambda>x0. f 0 x0 nu0)
                       (map (\<lambda>i. real i * (2 * pi / real_of_int (nx0 - 1))) [0..<nat nx0]),
                  un = map mem [0..<nat nx0], iters = 0\<rparr>))"
  by (rule set_up_closed)

text \<open>
  The claim that setup fails for every number of points below two is false for no points at
  all: setup then returns empty arrays and the spacing \<open>- 2 * pi\<close>.
\<close>

theorem set_up_no_points_counterexample:
  "set_up 0 100 (7 / 100) ufunc real
     = Inr (\<lparr>nx = 0, nt = 100, dx = - (2 * pi), nu = 7 / 100, dt = - (2 * pi) * (7 / 100)\<rparr>, [],
            \<lparr>u = [], un = [], iters = 0\<rparr>)"
  by (simp add: set_up_def py_div_def linspace_def np_empty_def)

subsection \<open>Array bounds\<close>

text \<open>
  Claim C10. For a field of length \<open>nx\<close> with \<open>nx \<ge> 3\<close> no read or write of a time
  step is out of range: the step never raises \<^verbatim>\<open>IndexError\<close>. It returns a field of
  the same length, unless the spacing is zero, when it raises \<^verbatim>\<open>ZeroDivisionError\<close>.
  The indices \<open>i - 1\<close>, \<open>i\<close>, \<open>i + 1\<close> of the interior sweep denote positions of the
  array, and the indices \<open>0\<close>, \<open>1\<close>, \<open>-2\<close>, \<open>-1\<close> of the boundary update denote
  the positions \<open>0\<close>, \<open>1\<close>, \<open>nx - 2\<close> and \<open>nx - 1\<close>.
\<close>

theorem step_in_bounds:
  assumes "3 \<le> nx p" and "int (length (u s)) = nx p"
  shows "step p s \<noteq> Inl IndexError \<and>
         (if dx p = 0 then step p s = Inl ZeroDivisionError
          else \<exists>s'. step p s = Inr s' \<and> length (u s') = length (u s)) \<and>
         (\<forall>i\<in>set [1..nx p - 2]. \<forall>j\<in>{i - 1, i, i + 1}.
            0 \<le> pos (u s) j \<and> pos (u s) j < nx p) \<and>
         pos (u s) 0 = 0 \<and> pos (u s) 1 = 1 \<and>
         pos (u s) (- 2) = nx p - 2 \<and> pos (u s) (- 1) = nx p - 1"
proof -
  have res: "step p s \<noteq> Inl IndexError \<and>
         (if dx p = 0 then step p s = Inl ZeroDivisionError
          else \<exists>s'. step p s = Inr s' \<and> length (u s') = length (u s))"
  proof (cases "dx p = 0")
    case True
    let ?a = "u s"
    have g: "getitem ?a 1 = Inr (?a ! 1)" "getitem ?a 0 = Inr (?a ! 0)"
      using assms by (auto simp: getitem_def pos_def)
    have "update p ?a 1 (1 - 1) (1 + 1) = Inl ZeroDivisionError"
      using True by (simp add: update_def g py_div_def)
    moreover have "[1..nx p - 2] = 1 # [2..nx p - 2]"
      using assms(1) by (simp add: upto.simps)
    ultimately have "step p s = Inl ZeroDivisionError"
      by (simp add: step_def advance_def)
    with True show ?thesis
      by simp
  next
    case False
    with assms have "valid p (u s)"
      by (simp add: valid_def)
    then have "step p s = Inr (s\<lparr>u := next_field p (u s), un := u s, iters := Suc (iters s)\<rparr>)"
      by (rule step_closed)
    with False show ?thesis
      by simp
  qed
  have interior: "\<forall>i\<in>set [1..nx p - 2]. \<forall>j\<in>{i - 1, i, i + 1}.
      0 \<le> pos (u s) j \<and> pos (u s) j < nx p"
    using assms by (auto simp: pos_def)
  have ends: "pos (u s) 0 = 0" "pos (u s) 1 = 1"
    "pos (u s) (- 2) = nx p - 2" "pos (u s) (- 1) = nx p - 1"
    using assms by (simp_all add: pos_def)
  from res interior ends show ?thesis
    by (intro conjI) blast+
qed

theorem step_in_bounds_witness:
  "(3::int) \<le> nx \<lparr>nx = 4, nt = 2, dx = 2, nu = 1, dt = 1\<rparr>
   \<and> int (length (u \<lparr>u = [1, 2, 4, 1], un = [], iters = 0\<rparr>)) = nx \<lparr>nx = 4, nt = 2, dx = 2, nu = 1, dt = 1\<rparr>
   \<and> step \<lparr>nx = 4, nt = 2, dx = 2, nu = 1, dt = 1\<rparr> \<lparr>u = [1, 2, 4, 1], un = [], iters = 0\<rparr> \<noteq> Inl IndexError
   \<and> step \<lparr>nx = 4, nt = 2, dx = 2, nu = 1, dt = 1\<rparr> \<lparr>u = [1, 2, 4, 1], un = [], iters = 0\<rparr>
       = Inr \<lparr>u = [7 / 2, 5 / 4, - (5 / 4), 7 / 2], un = [1, 2, 4, 1], iters = 1\<rparr>
   \<and> step \<lparr>nx = 4, nt = 2, dx = 0, nu = 1, dt = 1\<rparr> \<lparr>u = [1, 2, 4, 1], un = [], iters = 0\<rparr> = Inl ZeroDivisionError"
  using step_in_bounds [of "\<lparr>nx = 4, nt = 2, dx = 2, nu = 1, dt = 1\<rparr>"
      "\<lparr>u = [1, 2, 4, 1], un = [], iters = 0\<rparr>"]
    step_in_bounds [of "\<lparr>nx = 4, nt = 2, dx = 0, nu = 1, dt = 1\<rparr>"
      "\<lparr>u = [1, 2, 4, 1], un = [], iters = 0\<rparr>"]
  by (simp add: valid_def step_def advance_def boundary_def update_def getitem_def setitem_def
      pos_def py_div_def upto.simps)

end
